theory Spec2Isabelle
  imports Complex_Main
begin

section \<open>Python string primitives used by contacts\_matcher.py\<close>

text \<open>
  A Python \<open>str\<close> is modelled as a \<open>string\<close> (a list of 8-bit characters). The model is
  exact on ASCII text: the white space of \<open>str.strip()\<close> and \<open>str.split()\<close> is the ASCII
  white space of \<open>str.isspace\<close> (TAB, LF, VT, FF, CR, FS, GS, RS, US and the blank), and
  \<open>str.lower()\<close> maps \<open>A..Z\<close> to \<open>a..z\<close>. Characters above 127 are left alone.
\<close>

definition is_space :: "char \<Rightarrow> bool" where
  "is_space c \<longleftrightarrow> (of_char c :: nat) \<in> set [9, 10, 11, 12, 13, 28, 29, 30, 31, 32]"

definition lower_char :: "char \<Rightarrow> char" where
  "lower_char c =
     (let n = (of_char c :: nat) in if 65 \<le> n \<and> n \<le> 90 then char_of (n + 32) else c)"

text \<open>\<open>s.strip()\<close>\<close>

definition py_strip :: "string \<Rightarrow> string" where
  "py_strip s = rev (dropWhile is_space (rev (dropWhile is_space s)))"

text \<open>\<open>s.strip(chars)\<close>: every leading and trailing character that occurs in \<open>chars\<close> goes.\<close>

definition py_strip_chars :: "string \<Rightarrow> string \<Rightarrow> string" where
  "py_strip_chars chars s =
     rev (dropWhile (\<lambda>c. c \<in> set chars) (rev (dropWhile (\<lambda>c. c \<in> set chars) s)))"

text \<open>\<open>s.lower()\<close>\<close>

definition py_lower :: "string \<Rightarrow> string" where
  "py_lower s = map lower_char s"

text \<open>
  \<open>s.split()\<close> with no separator: the maximal runs of characters that are not white
  space, in order; no empty token. \<open>cur\<close> is the token being read.
\<close>

fun split_from :: "string \<Rightarrow> string \<Rightarrow> string list" where
  "split_from cur [] = (if cur = [] then [] else [cur])"
| "split_from cur (c # cs) =
     (if is_space c then (if cur = [] then split_from [] cs else cur # split_from [] cs)
      else split_from (cur @ [c]) cs)"

definition py_split :: "string \<Rightarrow> string list" where
  "py_split s = split_from [] s"

text \<open>\<open>sep.join(parts)\<close>\<close>

fun py_join :: "string \<Rightarrow> string list \<Rightarrow> string" where
  "py_join sep [] = []"
| "py_join sep [p] = p"
| "py_join sep (p # q # ps) = p @ sep @ py_join sep (q # ps)"

section \<open>Helpers\<close>

text \<open>
  \<^verbatim>\<open>def normalize_string(s):
      if s is None: return ""
      return " ".join(str(s).strip().lower().split())\<close>
  The argument is a \<open>str\<close> or \<open>None\<close> (a NULL column of the contacts table).
\<close>

definition normalize_string :: "string option \<Rightarrow> string" where
  "normalize_string s =
     (case s of None \<Rightarrow> []
      | Some t \<Rightarrow> py_join '' '' (py_split (py_lower (py_strip t))))"

text \<open>
  Both key builders end in \<^verbatim>\<open>f"{name} | {company}".strip(" |")\<close>; \<open>key_of\<close> is that
  expression on the two normalized strings.
\<close>

definition key_of :: "string \<Rightarrow> string \<Rightarrow> string" where
  "key_of name company = py_strip_chars '' |'' (name @ '' | '' @ company)"

section \<open>Data model\<close>

text \<open>
  A cell of a frame that pandas read from a CSV file is a \<open>str\<close> or, where the file has
  no value, the float \<open>NaN\<close>; \<open>str(NaN)\<close> is \<open>"nan"\<close>. A row (a pandas Series) maps column
  labels to cells. The code reads a row only at labels it took from \<open>df.columns\<close> (or at
  the column it has just added), so the lookup \<open>row[label]\<close> is function application.
  Columns that pandas parses as numbers or booleans are outside the model.
  Both entry points start with a check that the path exists and with \<open>pd.read_csv\<close>; the
  model starts from the frame that was read.
\<close>

datatype cell = NaN | Text string

fun py_str :: "cell \<Rightarrow> string" where
  "py_str NaN = ''nan''"
| "py_str (Text s) = s"

type_synonym series = "string \<Rightarrow> cell"

record dataframe =
  df_columns :: "string list"
  df_rows :: "series list"

text \<open>
  The table \<open>contacts\<close> of \<open>init_db\<close>: nine TEXT columns and the INTEGER PRIMARY KEY
  \<open>id\<close>, which SQLite assigns. The table is the list of its rows in rowid order, the
  order in which \<open>SELECT * FROM contacts\<close> reads them.
\<close>

record contact =
  full_name :: string
  first_name :: string
  last_name :: string
  company :: string
  title :: string
  email :: string
  linkedin_url :: string
  source :: string
  owner :: string

type_synonym table = "(nat \<times> contact) list"

record attendee =
  attendee_name :: string
  attendee_company :: string
  attendee_email :: string

text \<open>One dictionary of \<open>matches_export\<close>: the attendee's three fields and seven more.\<close>

record match_result = attendee +
  contact_name :: string
  contact_company :: string
  contact_title :: string
  contact_owner :: string
  contact_source :: string
  contact_email :: string
  match_score :: rat

text \<open>
  The exceptions of the code. Its three \<open>ValueError\<close>s differ in their message:
  "No contacts in database. Load contacts first.", "Could not find a 'Name'/'full\_name'
  column or 'First Name' + 'Last Name' in the contacts CSV." and "Could not find a
  'name' or 'full name' column in attendee CSV.".
\<close>

datatype valmsg = NoContactsInDatabase | NoContactNameColumn | NoAttendeeNameColumn

datatype error = ValueError valmsg | KeyError | IndexError

text \<open>
  \<^verbatim>\<open>def split_name(full_name):
      if not full_name: return "", ""
      parts = full_name.strip().split()
      if len(parts) == 1: return parts[0], ""
      first = " ".join(parts[:-1]); last = parts[-1]
      return first, last\<close>
  On a text of white space only \<open>parts\<close> is empty and \<open>parts[-1]\<close> raises IndexError.
\<close>

definition split_name :: "string \<Rightarrow> error + string \<times> string" where
  "split_name fname =
     (if fname = [] then Inr ([], [])
      else (case py_split (py_strip fname) of
              [] \<Rightarrow> Inl IndexError
            | [p] \<Rightarrow> Inr (p, [])
            | p # q # ps \<Rightarrow> Inr (py_join '' '' (butlast (p # q # ps)), last (p # q # ps))))"

section \<open>Loading contacts\<close>

text \<open>The \<open>if/elif\<close> chain of the column detection, on the trimmed, lower-cased header.\<close>

definition contact_field :: "string \<Rightarrow> string option" where
  "contact_field lc =
     (if lc \<in> set [''full_name'', ''name''] then Some ''full_name''
      else if lc \<in> set [''first name'', ''firstname'', ''given name''] then Some ''first_name''
      else if lc \<in> set [''last name'', ''lastname'', ''surname'', ''family name'']
        then Some ''last_name''
      else if lc \<in> set [''company'', ''current company'', ''organization''] then Some ''company''
      else if lc \<in> set [''title'', ''position'', ''job title''] then Some ''title''
      else if lc \<in> set [''email'', ''email address''] then Some ''email''
      else if lc \<in> set [''url'', ''linkedin url'', ''profile url''] then Some ''linkedin_url''
      else None)"

text \<open>\<open>col_map\<close> after the loop over \<open>df.columns\<close>: a later column overwrites an earlier one.\<close>

definition contact_col_map :: "string list \<Rightarrow> (string \<rightharpoonup> string)" where
  "contact_col_map cols =
     fold (\<lambda>col m. case contact_field (py_lower (py_strip col)) of
                      None \<Rightarrow> m
                    | Some k \<Rightarrow> m(k \<mapsto> col)) cols Map.empty"

text \<open>\<open>df[c].fillna("").astype(str).str.strip()\<close> on one cell.\<close>

fun fillna_str_strip :: "cell \<Rightarrow> string" where
  "fillna_str_strip NaN = py_strip []"
| "fillna_str_strip (Text s) = py_strip s"

text \<open>
  The synthesized column \<open>__full_name_tmp\<close>: trimmed first name, one blank, trimmed last
  name. Assigning to a label the frame already has overwrites that column.
\<close>

definition full_name_tmp :: string where
  "full_name_tmp = ''__full_name_tmp''"

definition add_full_name_tmp :: "string \<Rightarrow> string \<Rightarrow> dataframe \<Rightarrow> dataframe" where
  "add_full_name_tmp fn_col ln_col df =
     \<lparr>df_columns = (if full_name_tmp \<in> set (df_columns df) then df_columns df
                     else df_columns df @ [full_name_tmp]),
      df_rows = map (\<lambda>row. row(full_name_tmp :=
                        Text (fillna_str_strip (row fn_col) @ '' '' @ fillna_str_strip (row ln_col))))
                    (df_rows df)\<rparr>"

text \<open>
  \<open>DELETE FROM contacts WHERE owner = ? AND source = ?\<close>, and \<open>INSERT\<close> without an id:
  SQLite gives the new row one more than the largest rowid in use (1 in an empty table).
\<close>

definition in_partition :: "string \<Rightarrow> string \<Rightarrow> nat \<times> contact \<Rightarrow> bool" where
  "in_partition own src r \<longleftrightarrow> owner (snd r) = own \<and> source (snd r) = src"

definition sql_delete :: "string \<Rightarrow> string \<Rightarrow> table \<Rightarrow> table" where
  "sql_delete own src db = filter (\<lambda>r. \<not> in_partition own src r) db"

definition sql_insert :: "contact \<Rightarrow> table \<Rightarrow> table" where
  "sql_insert c db = db @ [(Suc (fold max (map fst db) 0), c)]"

text \<open>\<open>str(row[col_map[k]]) if k in col_map else ""\<close>\<close>

definition optional_cell :: "(string \<rightharpoonup> string) \<Rightarrow> series \<Rightarrow> string \<Rightarrow> string" where
  "optional_cell col_map row k = (case col_map k of None \<Rightarrow> [] | Some col \<Rightarrow> py_str (row col))"

text \<open>
  The loop \<open>for _, row in df.iterrows()\<close>, with the table and the counter \<open>inserted\<close> as
  its state. \<open>col_map["full_name"]\<close> raises KeyError on a missing key.
\<close>

fun insert_rows ::
  "(string \<rightharpoonup> string) \<Rightarrow> string \<Rightarrow> string \<Rightarrow> series list \<Rightarrow> table \<Rightarrow> nat \<Rightarrow> error + table \<times> nat"
where
  "insert_rows col_map own src [] db inserted = Inr (db, inserted)"
| "insert_rows col_map own src (row # rows) db inserted =
     (case col_map ''full_name'' of
        None \<Rightarrow> Inl KeyError
      | Some name_col \<Rightarrow>
          (let full_name_raw = py_strip (py_str (row name_col)) in
           if full_name_raw = [] then insert_rows col_map own src rows db inserted
           else (case split_name full_name_raw of
                   Inl e \<Rightarrow> Inl e
                 | Inr (fst_name, lst_name) \<Rightarrow>
                     insert_rows col_map own src rows
                       (sql_insert
                          \<lparr>full_name = full_name_raw, first_name = fst_name,
                           last_name = lst_name,
                           company = optional_cell col_map row ''company'',
                           title = optional_cell col_map row ''title'',
                           email = optional_cell col_map row ''email'',
                           linkedin_url = optional_cell col_map row ''linkedin_url'',
                           source = src, owner = own\<rparr> db)
                       (inserted + 1))))"

text \<open>"Build a full\_name column if needed": the frame and \<open>col_map\<close> after that step.\<close>

definition build_full_name ::
  "dataframe \<Rightarrow> (string \<rightharpoonup> string) \<Rightarrow> error + dataframe \<times> (string \<rightharpoonup> string)"
where
  "build_full_name df col_map =
     (if col_map ''full_name'' = None then
        (case col_map ''first_name'' of
           None \<Rightarrow> Inl KeyError
         | Some fn_col \<Rightarrow>
             (case col_map ''last_name'' of
                None \<Rightarrow> Inl KeyError
              | Some ln_col \<Rightarrow>
                  Inr (add_full_name_tmp fn_col ln_col df,
                       col_map(''full_name'' \<mapsto> full_name_tmp))))
      else Inr (df, col_map))"

text \<open>
  \<open>load_contacts_from_csv\<close> on the frame read from the file. The result is what the call
  raised, or the counts of deleted and inserted rows that it prints, together with the
  table afterwards. The schema check comes before the connection is opened. DELETE and
  the INSERTs run in one sqlite3 transaction, committed at the end: an exception after the
  DELETE leaves the table as it was.
\<close>

definition load_contacts_from_csv ::
  "dataframe \<Rightarrow> string \<Rightarrow> string \<Rightarrow> table \<Rightarrow> (error + nat \<times> nat) \<times> table"
where
  "load_contacts_from_csv df own src db =
     (let col_map = contact_col_map (df_columns df) in
      if col_map ''full_name'' = None
         \<and> \<not> (col_map ''first_name'' \<noteq> None \<and> col_map ''last_name'' \<noteq> None)
      then (Inl (ValueError NoContactNameColumn), db)
      else (case build_full_name df col_map of
              Inl e \<Rightarrow> (Inl e, db)
            | Inr (df', col_map') \<Rightarrow>
                (let db1 = sql_delete own src db;
                     deleted = length db - length db1
                 in case insert_rows col_map' own src (df_rows df') db1 0 of
                      Inl e \<Rightarrow> (Inl e, db)
                    | Inr (db2, inserted) \<Rightarrow> (Inr (deleted, inserted), db2))))"

section \<open>Matching attendees against the contacts\<close>

definition build_contact_key :: "contact \<Rightarrow> string" where
  "build_contact_key row =
     key_of (normalize_string (Some (full_name row))) (normalize_string (Some (company row)))"

definition build_attendee_key :: "attendee \<Rightarrow> string" where
  "build_attendee_key row =
     key_of (normalize_string (Some (attendee_name row)))
            (normalize_string (Some (attendee_company row)))"

definition attendee_field :: "string \<Rightarrow> string option" where
  "attendee_field lc =
     (if lc \<in> set [''name'', ''full name''] then Some ''name''
      else if lc \<in> set [''company'', ''organization'', ''org'', ''employer''] then Some ''company''
      else if lc \<in> set [''email'', ''email address''] then Some ''email''
      else None)"

definition attendee_col_map :: "string list \<Rightarrow> (string \<rightharpoonup> string)" where
  "attendee_col_map cols =
     fold (\<lambda>col m. case attendee_field (py_lower (py_strip col)) of
                      None \<Rightarrow> m
                    | Some k \<Rightarrow> m(k \<mapsto> col)) cols Map.empty"

text \<open>
  \<open>raw_df[c].astype(str).fillna("").str.strip()\<close> on one cell: \<open>astype(str)\<close> comes first,
  so a missing value is already the text \<open>"nan"\<close> when \<open>fillna\<close> runs.
\<close>

definition astype_str_strip :: "cell \<Rightarrow> string" where
  "astype_str_strip c = py_strip (py_str c)"

definition optional_column :: "(string \<rightharpoonup> string) \<Rightarrow> series \<Rightarrow> string \<Rightarrow> string" where
  "optional_column col_map row k =
     (case col_map k of None \<Rightarrow> [] | Some col \<Rightarrow> astype_str_strip (row col))"

text \<open>\<open>attendees_df\<close>, one record per row of the file, or the error for a missing name column.\<close>

definition build_attendees :: "dataframe \<Rightarrow> error + attendee list" where
  "build_attendees raw_df =
     (let col_map = attendee_col_map (df_columns raw_df) in
      case col_map ''name'' of
        None \<Rightarrow> Inl (ValueError NoAttendeeNameColumn)
      | Some name_col \<Rightarrow>
          Inr (map (\<lambda>row. \<lparr>attendee_name = astype_str_strip (row name_col),
                           attendee_company = optional_column col_map row ''company'',
                           attendee_email = optional_column col_map row ''email''\<rparr>)
                   (df_rows raw_df)))"

text \<open>
  The similarity scorer \<open>fuzz.token_sort_ratio\<close> belongs to the rapidfuzz library and is a
  parameter of the model. It returns a Python float; a finite float is a rational number,
  and Python compares a float with an int exactly.
\<close>

type_synonym scorer = "string \<Rightarrow> string \<Rightarrow> rat"

text \<open>
  Modelled from the spec: \<open>process.extractOne\<close> of rapidfuzz is not part of the
  repository. Spec 4.4: "Select the single highest-scoring contact key; on ties [...] first
  encountered in store iteration order". The result is the choice, its score and its
  position, or \<open>None\<close> when there is no choice.
\<close>

fun extract_from ::
  "scorer \<Rightarrow> string \<Rightarrow> nat \<Rightarrow> string list \<Rightarrow> (string \<times> rat \<times> nat) option
   \<Rightarrow> (string \<times> rat \<times> nat) option"
where
  "extract_from sc query i [] best = best"
| "extract_from sc query i (c # cs) best =
     extract_from sc query (Suc i) cs
       (case best of
          None \<Rightarrow> Some (c, sc query c, i)
        | Some (bc, bs, bi) \<Rightarrow> if bs < sc query c then Some (c, sc query c, i) else best)"

definition extractOne :: "scorer \<Rightarrow> string \<Rightarrow> string list \<Rightarrow> (string \<times> rat \<times> nat) option" where
  "extractOne sc query choices = extract_from sc query 0 choices None"

text \<open>
  \<^verbatim>\<open>key_to_index = {row["match_key"]: idx for idx, row in contacts_df.iterrows()}\<close>
  A dict comprehension keeps, for a key that occurs more than once, the last index.
\<close>

fun index_from :: "nat \<Rightarrow> string list \<Rightarrow> (string \<rightharpoonup> nat) \<Rightarrow> (string \<rightharpoonup> nat)" where
  "index_from idx [] m = m"
| "index_from idx (k # ks) m = index_from (Suc idx) ks (m(k \<mapsto> idx))"

definition key_to_index :: "string list \<Rightarrow> (string \<rightharpoonup> nat)" where
  "key_to_index keys = index_from 0 keys Map.empty"

definition export_row :: "attendee \<Rightarrow> contact \<Rightarrow> rat \<Rightarrow> match_result" where
  "export_row att contact_row score =
     \<lparr>attendee_name = attendee_name att,
      attendee_company = attendee_company att,
      attendee_email = attendee_email att,
      contact_name = full_name contact_row,
      contact_company = company contact_row,
      contact_title = title contact_row,
      contact_owner = owner contact_row,
      contact_source = source contact_row,
      contact_email = email contact_row,
      match_score = score\<rparr>"

text \<open>
  The body of \<open>for _, att in attendees_df.iterrows()\<close>: what one attendee appends to
  \<open>matches_export\<close> (nothing on \<open>continue\<close>). \<open>key_to_index[best_key]\<close> raises KeyError on
  a missing key and \<open>contacts_df.iloc[contact_idx]\<close> IndexError out of range.
\<close>

definition match_attendee ::
  "scorer \<Rightarrow> int \<Rightarrow> contact list \<Rightarrow> string list \<Rightarrow> (string \<rightharpoonup> nat) \<Rightarrow> attendee \<times> string
   \<Rightarrow> error + match_result list"
where
  "match_attendee sc threshold contacts_df contact_keys kti att =
     (let query_key = snd att in
      if query_key = [] then Inr []
      else (case extractOne sc query_key contact_keys of
              None \<Rightarrow> Inr []
            | Some (best_key, score, _) \<Rightarrow>
                if score < of_int threshold then Inr []
                else (case kti best_key of
                        None \<Rightarrow> Inl KeyError
                      | Some contact_idx \<Rightarrow>
                          if contact_idx < length contacts_df
                          then Inr [export_row (fst att) (contacts_df ! contact_idx) score]
                          else Inl IndexError)))"

fun match_loop ::
  "scorer \<Rightarrow> int \<Rightarrow> contact list \<Rightarrow> string list \<Rightarrow> (string \<rightharpoonup> nat) \<Rightarrow> (attendee \<times> string) list
   \<Rightarrow> match_result list \<Rightarrow> error + match_result list"
where
  "match_loop sc threshold contacts_df contact_keys kti [] matches_export = Inr matches_export"
| "match_loop sc threshold contacts_df contact_keys kti (att # atts) matches_export =
     (case match_attendee sc threshold contacts_df contact_keys kti att of
        Inl e \<Rightarrow> Inl e
      | Inr new \<Rightarrow>
          match_loop sc threshold contacts_df contact_keys kti atts (matches_export @ new))"

text \<open>
  \<open>match_attendees_from_csv\<close> on the contacts table and the frame read from the attendee
  file. The table is checked first, then the attendee columns are mapped.
  \<open>attendees_df["match_key"]\<close> is the second component of each pair given to the loop;
  \<open>DataFrame.apply(f, axis=1)\<close> is the map of \<open>f\<close> over the rows.
\<close>

definition match_attendees_from_csv ::
  "scorer \<Rightarrow> table \<Rightarrow> dataframe \<Rightarrow> int \<Rightarrow> error + match_result list"
where
  "match_attendees_from_csv sc db raw_df threshold =
     (let contacts_df = map snd db in
      if contacts_df = [] then Inl (ValueError NoContactsInDatabase)
      else (let contact_keys = map build_contact_key contacts_df in
            case build_attendees raw_df of
              Inl e \<Rightarrow> Inl e
            | Inr attendees_df \<Rightarrow>
                match_loop sc threshold contacts_df contact_keys (key_to_index contact_keys)
                  (map (\<lambda>a. (a, build_attendee_key a)) attendees_df) []))"

section \<open>Notions used to state the properties\<close>

text \<open>
  The white-space-separated tokens of the trimmed name: \<open>full_name.strip().split()\<close>.
\<close>

definition name_parts :: "string \<Rightarrow> string list" where
  "name_parts n = py_split (py_strip n)"

text \<open>
  The resolved full name of a row of the contacts file: the trimmed text of the name
  column when the file has one, else the trimmed first name, one blank and the trimmed
  last name, trimmed again. It is \<open>full_name_raw\<close> in the loop of the loader.
\<close>

definition resolved_full_name :: "dataframe \<Rightarrow> series \<Rightarrow> string" where
  "resolved_full_name df row =
     (let col_map = contact_col_map (df_columns df) in
      case col_map ''full_name'' of
        Some name_col \<Rightarrow> py_strip (py_str (row name_col))
      | None \<Rightarrow>
          (case col_map ''first_name'' of
             None \<Rightarrow> []
           | Some fn_col \<Rightarrow>
               (case col_map ''last_name'' of
                  None \<Rightarrow> []
                | Some ln_col \<Rightarrow>
                    py_strip (fillna_str_strip (row fn_col) @ '' '' @ fillna_str_strip (row ln_col)))))"

text \<open>
  The nine values that the loader's INSERT writes for a row whose resolved full name is
  \<open>n\<close>; \<open>csv_contact\<close> is the record of a row of a given file.
\<close>

definition made_contact ::
  "(string \<rightharpoonup> string) \<Rightarrow> string \<Rightarrow> string \<Rightarrow> string \<Rightarrow> series \<Rightarrow> contact" where
  "made_contact col_map own src n row =
     \<lparr>full_name = n,
      first_name = (if length (name_parts n) = 1 then hd (name_parts n)
                    else py_join '' '' (butlast (name_parts n))),
      last_name = (if length (name_parts n) = 1 then [] else last (name_parts n)),
      company = optional_cell col_map row ''company'',
      title = optional_cell col_map row ''title'',
      email = optional_cell col_map row ''email'',
      linkedin_url = optional_cell col_map row ''linkedin_url'',
      source = src, owner = own\<rparr>"

definition csv_contact :: "dataframe \<Rightarrow> string \<Rightarrow> string \<Rightarrow> series \<Rightarrow> contact" where
  "csv_contact df own src row =
     made_contact (contact_col_map (df_columns df)) own src (resolved_full_name df row) row"

text \<open>
  An attendee clears the threshold when its key is not empty and its best score over the
  contact keys is at least the threshold.
\<close>

definition clears_threshold :: "scorer \<Rightarrow> string list \<Rightarrow> int \<Rightarrow> attendee \<Rightarrow> bool" where
  "clears_threshold sc contact_keys threshold a \<longleftrightarrow>
     build_attendee_key a \<noteq> [] \<and> contact_keys \<noteq> []
     \<and> of_int threshold \<le> Max (sc (build_attendee_key a) ` set contact_keys)"

text \<open>
  The attendee part of a result row, and the relation "the row \<open>r\<close> joins the contact
  \<open>c\<close>": the six contact fields of \<open>r\<close> are those of \<open>c\<close>.
\<close>

definition result_attendee :: "match_result \<Rightarrow> attendee" where
  "result_attendee r =
     \<lparr>attendee_name = attendee_name r, attendee_company = attendee_company r,
      attendee_email = attendee_email r\<rparr>"


text \<open>
  What one attendee contributes to the result of a call on the contacts \<open>cs\<close>.
\<close>

definition matched_rows :: "scorer \<Rightarrow> int \<Rightarrow> contact list \<Rightarrow> attendee \<Rightarrow> match_result list" where
  "matched_rows sc t cs a =
     projr (match_attendee sc t cs (map build_contact_key cs)
              (key_to_index (map build_contact_key cs)) (a, build_attendee_key a))"

section \<open>Example data\<close>

text \<open>
  A scorer for the examples (any function of two keys is a scorer): 100 on equal keys, 90
  on keys with the same first four characters, 0 otherwise. Two contacts with the same
  key (Scenario A of the specification, under two owners), three frames of contacts, a
  frame of attendees and the tables and rows that the calls on them produce.
\<close>

definition ex_scorer :: scorer where
  "ex_scorer a b = (if a = b then 100 else if take 4 a = take 4 b then 90 else 0)"

definition jane_ava :: contact where
  "jane_ava = \<lparr>full_name = ''Jane Doe'', first_name = ''Jane'', last_name = ''Doe'',
     company = ''Acme Corp'', title = [], email = [], linkedin_url = [],
     source = ''LinkedIn'', owner = ''Ava''\<rparr>"

definition jane_bob :: contact where
  "jane_bob = \<lparr>full_name = ''JANE  DOE'', first_name = ''JANE'', last_name = ''DOE'',
     company = ''acme corp'', title = ''CEO'', email = [], linkedin_url = [],
     source = ''LinkedIn'', owner = ''Bob''\<rparr>"

definition bar_contact :: contact where
  "bar_contact = \<lparr>full_name = ''Jane Doe'', first_name = ''Jane'', last_name = ''Doe'',
     company = ''Acme|'', title = [], email = [], linkedin_url = [],
     source = ''LinkedIn'', owner = ''Ava''\<rparr>"

definition ex_table :: table where
  "ex_table = [(1, jane_ava), (2, jane_bob)]"


definition ex_contacts_csv :: dataframe where
  "ex_contacts_csv = \<lparr>df_columns = [''Name'', '' Company ''],
     df_rows = [(\<lambda>_. NaN)(''Name'' := Text ''Mary Ann  Lee '', '' Company '' := Text ''Initech''),
                (\<lambda>_. NaN)('' Company '' := Text ''Globex''),
                (\<lambda>_. NaN)(''Name'' := Text ''   ''),
                (\<lambda>_. NaN)(''Name'' := Text ''Cher'')]\<rparr>"

definition ex_first_last_csv :: dataframe where
  "ex_first_last_csv = \<lparr>df_columns = [''First Name'', ''Surname''],
     df_rows = [(\<lambda>_. NaN)(''First Name'' := Text ''Jane'', ''Surname'' := Text ''Doe''),
                (\<lambda>_. NaN)]\<rparr>"

definition ex_bad_csv :: dataframe where
  "ex_bad_csv = \<lparr>df_columns = [''First Name'', ''Company''],
     df_rows = [(\<lambda>_. NaN)(''First Name'' := Text ''Jane'', ''Company'' := Text ''Acme Corp'')]\<rparr>"

definition mary_ann_lee :: contact where
  "mary_ann_lee = \<lparr>full_name = ''Mary Ann  Lee'', first_name = ''Mary Ann'', last_name = ''Lee'',
     company = ''Initech'', title = [], email = [], linkedin_url = [],
     source = ''LinkedIn'', owner = ''Ava''\<rparr>"

definition nan_contact :: contact where
  "nan_contact = \<lparr>full_name = ''nan'', first_name = ''nan'', last_name = [],
     company = ''Globex'', title = [], email = [], linkedin_url = [],
     source = ''LinkedIn'', owner = ''Ava''\<rparr>"

definition cher :: contact where
  "cher = \<lparr>full_name = ''Cher'', first_name = ''Cher'', last_name = [],
     company = ''nan'', title = [], email = [], linkedin_url = [],
     source = ''LinkedIn'', owner = ''Ava''\<rparr>"

definition ex_table_after :: table where
  "ex_table_after = [(2, jane_bob), (3, mary_ann_lee), (4, nan_contact), (5, cher)]"

definition ex_attendees_csv :: dataframe where
  "ex_attendees_csv = \<lparr>df_columns = [''Full Name'', ''Organization''],
     df_rows = [(\<lambda>_. NaN)(''Full Name'' := Text ''John Smith'', ''Organization'' := Text ''Initech''),
                (\<lambda>_. NaN)(''Full Name'' := Text ''Janet Roe'', ''Organization'' := Text ''Globex''),
                (\<lambda>_. NaN)(''Full Name'' := Text '' jane doe'', ''Organization'' := Text ''ACME  Corp''),
                (\<lambda>_. NaN)(''Full Name'' := Text ''  '', ''Organization'' := Text '' '')]\<rparr>"

definition att_john :: attendee where
  "att_john = \<lparr>attendee_name = ''John Smith'', attendee_company = ''Initech'', attendee_email = []\<rparr>"

definition att_janet :: attendee where
  "att_janet = \<lparr>attendee_name = ''Janet Roe'', attendee_company = ''Globex'', attendee_email = []\<rparr>"

definition att_jane :: attendee where
  "att_jane = \<lparr>attendee_name = ''jane doe'', attendee_company = ''ACME  Corp'', attendee_email = []\<rparr>"

definition att_blank :: attendee where
  "att_blank = \<lparr>attendee_name = [], attendee_company = [], attendee_email = []\<rparr>"

definition ex_attendees :: "attendee list" where
  "ex_attendees = [att_john, att_janet, att_jane, att_blank]"

definition row_janet :: match_result where
  "row_janet = \<lparr>attendee_name = ''Janet Roe'', attendee_company = ''Globex'', attendee_email = [],
     contact_name = ''JANE  DOE'', contact_company = ''acme corp'', contact_title = ''CEO'',
     contact_owner = ''Bob'', contact_source = ''LinkedIn'', contact_email = [],
     match_score = 90\<rparr>"

definition row_jane :: match_result where
  "row_jane = \<lparr>attendee_name = ''jane doe'', attendee_company = ''ACME  Corp'', attendee_email = [],
     contact_name = ''JANE  DOE'', contact_company = ''acme corp'', contact_title = ''CEO'',
     contact_owner = ''Bob'', contact_source = ''LinkedIn'', contact_email = [],
     match_score = 100\<rparr>"

definition ex_rows :: "match_result list" where
  "ex_rows = [row_janet, row_jane]"

section \<open>Properties of the string primitives\<close>

lemma dropWhile_keep: "xs \<noteq> [] \<Longrightarrow> \<not> P (hd xs) \<Longrightarrow> dropWhile P xs = xs"
  by (cases xs) auto

lemma dropWhile_rev_keep: "s \<noteq> [] \<Longrightarrow> \<not> P (last s) \<Longrightarrow> dropWhile P (rev s) = rev s"
  by (rule dropWhile_keep) (simp_all add: hd_rev)

lemma strip_ends_keep:
  "s \<noteq> [] \<Longrightarrow> \<not> P (hd s) \<Longrightarrow> \<not> P (last s) \<Longrightarrow> rev (dropWhile P (rev (dropWhile P s))) = s"
  by (simp add: dropWhile_keep dropWhile_rev_keep)

lemma strip_ends_result:
  assumes "rev (dropWhile P (rev (dropWhile P s))) = r" "r \<noteq> []"
  shows "\<not> P (hd r) \<and> \<not> P (last r)"
proof -
  let ?d = "dropWhile P s"
  let ?e = "dropWhile P (rev ?d)"
  from assms(1) have re: "r = rev ?e" by simp
  with assms(2) have "?e \<noteq> []" by simp
  note e = this re
  then have l: "\<not> P (hd ?e)" by (metis hd_dropWhile)
  then have "\<not> P (last r)" using e by (simp add: last_rev)
  from e(1) have d: "?d \<noteq> []" by (cases "?d") auto
  then have hd: "\<not> P (hd ?d)" by (metis hd_dropWhile)
  obtain ys where ys: "rev ?d = ys @ ?e" by (metis takeWhile_dropWhile_id)
  then have "?d = rev ?e @ rev ys" by (metis rev_append rev_rev_ident)
  then have "hd ?d = hd r" using e by (metis hd_append2 rev_is_Nil_conv)
  with hd \<open>\<not> P (last r)\<close> show ?thesis by simp
qed

lemma strip_ends_suffix:
  assumes "s \<noteq> []" "\<not> P (hd s)" "\<not> P (last s)" "\<forall>c\<in>set t. P c"
  shows "rev (dropWhile P (rev (dropWhile P (s @ t)))) = s"
proof -
  from assms have 1: "dropWhile P (s @ t) = s @ t" by (cases s) auto
  from assms have 2: "dropWhile P (rev s) = rev s" by (simp add: dropWhile_rev_keep)
  from assms(4) have 3: "dropWhile P (rev t @ rev s) = dropWhile P (rev s)"
    by (simp add: dropWhile_append)
  show ?thesis by (simp add: 1 2 3)
qed

lemma strip_ends_prefix:
  assumes "s \<noteq> []" "\<not> P (hd s)" "\<not> P (last s)" "\<forall>c\<in>set t. P c"
  shows "rev (dropWhile P (rev (dropWhile P (t @ s)))) = s"
proof -
  from assms(4) have "dropWhile P (t @ s) = dropWhile P s" by (simp add: dropWhile_append)
  then show ?thesis using strip_ends_keep [OF assms(1-3)] by simp
qed

lemma strip_ends_all:
  assumes "\<forall>c\<in>set t. P c"
  shows "rev (dropWhile P (rev (dropWhile P t))) = []"
proof -
  from assms have d: "dropWhile P t = []" by (induction t) auto
  show ?thesis unfolding d by simp
qed

lemma split_from_tokens:
  "\<forall>c\<in>set cur. \<not> is_space c
   \<Longrightarrow> \<forall>t\<in>set (split_from cur s). t \<noteq> [] \<and> (\<forall>c\<in>set t. \<not> is_space c)"
proof (induction s arbitrary: cur)
  case Nil
  then show ?case by simp
next
  case (Cons a s)
  show ?case
  proof (cases "is_space a")
    case True
    with Cons.prems Cons.IH [of "[]"] show ?thesis by simp
  next
    case False
    with Cons.prems have "\<forall>c\<in>set (cur @ [a]). \<not> is_space c" by simp
    from Cons.IH [OF this] False show ?thesis by simp
  qed
qed

lemma split_from_eq_Nil:
  "split_from cur s = [] \<longleftrightarrow> cur = [] \<and> (\<forall>c\<in>set s. is_space c)"
  by (induction s arbitrary: cur) auto

lemma py_split_tokens: "t \<in> set (py_split s) \<Longrightarrow> t \<noteq> [] \<and> (\<forall>c\<in>set t. \<not> is_space c)"
  unfolding py_split_def using split_from_tokens [of "[]" s] by simp

lemma py_split_eq_Nil: "py_split s = [] \<longleftrightarrow> (\<forall>c\<in>set s. is_space c)"
  by (simp add: py_split_def split_from_eq_Nil)

lemma py_join_eq_Nil: "\<forall>t\<in>set ts. t \<noteq> [] \<Longrightarrow> py_join sep ts = [] \<longleftrightarrow> ts = []"
  by (induction sep ts rule: py_join.induct) auto

lemma py_join_hd: "ts \<noteq> [] \<Longrightarrow> hd ts \<noteq> [] \<Longrightarrow> hd (py_join sep ts) = hd (hd ts)"
  by (induction sep ts rule: py_join.induct) auto

lemma py_join_last:
  "ts \<noteq> [] \<Longrightarrow> \<forall>t\<in>set ts. t \<noteq> [] \<Longrightarrow> last (py_join sep ts) = last (last ts)"
  by (induction sep ts rule: py_join.induct) (auto simp: py_join_eq_Nil)

lemma py_strip_ends: "py_strip s \<noteq> [] \<Longrightarrow> \<not> is_space (hd (py_strip s)) \<and> \<not> is_space (last (py_strip s))"
  unfolding py_strip_def by (rule strip_ends_result [OF refl])

lemma py_strip_idem: "py_strip (py_strip s) = py_strip s"
proof (cases "py_strip s = []")
  case True
  have "py_strip [] = []" by (simp add: py_strip_def)
  with True show ?thesis by simp
next
  case False
  from py_strip_ends [OF False] False
  have "rev (dropWhile is_space (rev (dropWhile is_space (py_strip s)))) = py_strip s"
    by (intro strip_ends_keep) simp_all
  then show ?thesis by (rule trans [OF py_strip_def])
qed

text \<open>
  A normalized string neither starts nor ends with white space.
\<close>

lemma normalize_string_ends:
  assumes "normalize_string s \<noteq> []"
  shows "\<not> is_space (hd (normalize_string s)) \<and> \<not> is_space (last (normalize_string s))"
proof (cases s)
  case None
  with assms show ?thesis by (simp add: normalize_string_def)
next
  case (Some t)
  let ?ts = "py_split (py_lower (py_strip t))"
  have n: "normalize_string s = py_join '' '' ?ts" using Some by (simp add: normalize_string_def)
  have tok: "\<forall>u\<in>set ?ts. u \<noteq> [] \<and> (\<forall>c\<in>set u. \<not> is_space c)" using py_split_tokens by blast
  from assms n have ne: "?ts \<noteq> []" by auto
  then have "hd ?ts \<in> set ?ts" "last ?ts \<in> set ?ts" by simp_all
  with tok have h: "hd ?ts \<noteq> []" "\<not> is_space (hd (hd ?ts))" "last ?ts \<noteq> []" "\<not> is_space (last (last ?ts))"
    by (metis hd_in_set, metis hd_in_set, metis last_in_set, metis last_in_set)
  show ?thesis using n ne h tok by (simp add: py_join_hd py_join_last)
qed

lemma blank_is_space: "is_space CHR '' ''"
  by (simp add: is_space_def)

lemma in_blank_bar: "c \<in> set '' |'' \<longleftrightarrow> c = CHR '' '' \<or> c = CHR ''|''"
  by auto

lemma key_of_both:
  assumes "normalize_string a = n" "normalize_string b = c" "n \<noteq> []" "c \<noteq> []"
    "hd n \<noteq> CHR ''|''" "last c \<noteq> CHR ''|''"
  shows "key_of n c = n @ '' | '' @ c"
proof -
  from assms normalize_string_ends [of a] normalize_string_ends [of b] blank_is_space
  have "hd n \<noteq> CHR '' ''" "last c \<noteq> CHR '' ''" by auto
  with assms have "hd (n @ '' | '' @ c) \<notin> set '' |''" "last (n @ '' | '' @ c) \<notin> set '' |''"
    by (auto simp: in_blank_bar)
  then show ?thesis unfolding key_of_def py_strip_chars_def
    by (intro strip_ends_keep) (use assms in auto)
qed

lemma key_of_right_empty:
  assumes "normalize_string a = n" "n = [] \<or> (hd n \<noteq> CHR ''|'' \<and> last n \<noteq> CHR ''|'')"
  shows "key_of n [] = n"
proof (cases "n = []")
  case True
  then show ?thesis by (simp add: key_of_def py_strip_chars_def)
next
  case False
  with assms normalize_string_ends [of a] blank_is_space
  have "hd n \<notin> set '' |''" "last n \<notin> set '' |''" by (auto simp: in_blank_bar)
  with False have "rev (dropWhile (\<lambda>c. c \<in> set '' |'') (rev (dropWhile (\<lambda>c. c \<in> set '' |'') (n @ '' | '')))) = n"
    by (intro strip_ends_suffix) auto
  then show ?thesis by (simp add: key_of_def py_strip_chars_def)
qed

lemma key_of_left_empty:
  assumes "normalize_string b = c" "c = [] \<or> (hd c \<noteq> CHR ''|'' \<and> last c \<noteq> CHR ''|'')"
  shows "key_of [] c = c"
proof (cases "c = []")
  case True
  then show ?thesis by (simp add: key_of_def py_strip_chars_def)
next
  case False
  with assms normalize_string_ends [of b] blank_is_space
  have "hd c \<notin> set '' |''" "last c \<notin> set '' |''" by (auto simp: in_blank_bar)
  with False have "rev (dropWhile (\<lambda>x. x \<in> set '' |'') (rev (dropWhile (\<lambda>x. x \<in> set '' |'') ('' | '' @ c)))) = c"
    by (intro strip_ends_prefix) auto
  then show ?thesis by (simp add: key_of_def py_strip_chars_def)
qed

section \<open>The loader\<close>

text \<open>
  \<open>split_name\<close> does not raise on a trimmed, non-empty name.
\<close>

lemma name_parts_stripped:
  assumes "py_strip s \<noteq> []"
  shows "name_parts (py_strip s) \<noteq> []"
proof -
  from assms py_strip_ends [OF assms] have "\<exists>c\<in>set (py_strip s). \<not> is_space c"
    by (metis hd_in_set)
  then show ?thesis by (simp add: name_parts_def py_strip_idem py_split_eq_Nil)
qed

lemma split_name_stripped:
  assumes "py_strip s = n" "n \<noteq> []"
  shows "split_name n =
    Inr (if length (name_parts n) = 1 then hd (name_parts n)
         else py_join '' '' (butlast (name_parts n)),
         if length (name_parts n) = 1 then [] else last (name_parts n))"
proof -
  from assms name_parts_stripped [of s] have "name_parts n \<noteq> []" by simp
  then show ?thesis using assms(2)
    by (auto simp: split_name_def name_parts_def split: list.splits)
qed

text \<open>
  The loop appends one row for every row of the frame whose trimmed name is not empty,
  and never raises once \<open>col_map\<close> has the key \<open>full_name\<close>.
\<close>

lemma insert_rows_result:
  assumes "col_map ''full_name'' = Some nc"
  shows "\<exists>new. insert_rows col_map own src rows db k = Inr (db @ new, k + length new)
           \<and> map snd new = map (\<lambda>row. made_contact col_map own src (py_strip (py_str (row nc))) row)
                             (filter (\<lambda>row. py_strip (py_str (row nc)) \<noteq> []) rows)"
proof (induction rows arbitrary: db k)
  case Nil
  then show ?case by simp
next
  case (Cons row rows)
  let ?n = "py_strip (py_str (row nc))"
  show ?case
  proof (cases "?n = []")
    case True
    with Cons.IH [of db k] assms show ?thesis by simp
  next
    case False
    let ?c = "made_contact col_map own src ?n row"
    from Cons.IH [of "sql_insert ?c db" "k + 1"] obtain new where
      new: "insert_rows col_map own src rows (sql_insert ?c db) (k + 1)
              = Inr (sql_insert ?c db @ new, k + 1 + length new)"
        "map snd new = map (\<lambda>row. made_contact col_map own src (py_strip (py_str (row nc))) row)
                             (filter (\<lambda>row. py_strip (py_str (row nc)) \<noteq> []) rows)"
      by blast
    have step: "insert_rows col_map own src (row # rows) db k
                = insert_rows col_map own src rows (sql_insert ?c db) (k + 1)"
      using assms False split_name_stripped [OF refl False]
      by (simp add: made_contact_def Let_def)
    let ?new = "(Suc (fold max (map fst db) 0), ?c) # new"
    have "insert_rows col_map own src (row # rows) db k = Inr (db @ ?new, k + length ?new)"
      using step new(1) by (simp add: sql_insert_def)
    moreover have "map snd ?new = map (\<lambda>row. made_contact col_map own src (py_strip (py_str (row nc))) row)
                             (filter (\<lambda>row. py_strip (py_str (row nc)) \<noteq> []) (row # rows))"
      using False new(2) by simp
    ultimately show ?thesis by blast
  qed
qed

text \<open>
  \<open>col_map\<close> has a key exactly when some header is one of its aliases, and the header
  it holds for a key is such an alias; so no key maps to the synthesized column.
\<close>

lemma contact_fold_None:
  "fold (\<lambda>col m. case contact_field (py_lower (py_strip col)) of
                      None \<Rightarrow> m | Some k \<Rightarrow> m(k \<mapsto> col)) cols m0 k = None
   \<longleftrightarrow> m0 k = None \<and> (\<forall>col\<in>set cols. contact_field (py_lower (py_strip col)) \<noteq> Some k)"
  by (induction cols arbitrary: m0) (auto split: option.splits)

lemma contact_fold_Some:
  "fold (\<lambda>col m. case contact_field (py_lower (py_strip col)) of
                      None \<Rightarrow> m | Some k \<Rightarrow> m(k \<mapsto> col)) cols m0 k = Some c
   \<Longrightarrow> m0 k = Some c \<or> contact_field (py_lower (py_strip c)) = Some k"
proof (induction cols arbitrary: m0)
  case Nil
  then show ?case by simp
next
  case (Cons a cols)
  show ?case
  proof (cases "contact_field (py_lower (py_strip a))")
    case None
    with Cons.prems Cons.IH [of m0] show ?thesis by simp
  next
    case (Some k')
    with Cons.prems have "fold (\<lambda>col m. case contact_field (py_lower (py_strip col)) of
                      None \<Rightarrow> m | Some k \<Rightarrow> m(k \<mapsto> col)) cols (m0(k' \<mapsto> a)) k = Some c"
      by simp
    from Cons.IH [OF this]
    have "(m0(k' \<mapsto> a)) k = Some c \<or> contact_field (py_lower (py_strip c)) = Some k" .
    with Some show ?thesis by (auto split: if_splits)
  qed
qed

lemma contact_col_map_None:
  "contact_col_map cols k = None
   \<longleftrightarrow> (\<forall>col\<in>set cols. contact_field (py_lower (py_strip col)) \<noteq> Some k)"
  by (simp add: contact_col_map_def contact_fold_None)

lemma contact_col_map_Some:
  "contact_col_map cols k = Some c \<Longrightarrow> contact_field (py_lower (py_strip c)) = Some k"
  unfolding contact_col_map_def using contact_fold_Some [of cols Map.empty k c] by simp

lemma contact_field_full_name:
  "contact_field lc = Some ''full_name'' \<longleftrightarrow> lc \<in> set [''full_name'', ''name'']"
  by (simp add: contact_field_def)

lemma contact_field_first_name:
  "contact_field lc = Some ''first_name''
   \<longleftrightarrow> lc \<in> set [''first name'', ''firstname'', ''given name'']"
  by (auto simp: contact_field_def)

lemma contact_field_last_name:
  "contact_field lc = Some ''last_name''
   \<longleftrightarrow> lc \<in> set [''last name'', ''lastname'', ''surname'', ''family name'']"
  by (auto simp: contact_field_def)

lemma full_name_tmp_no_field: "contact_field (py_lower (py_strip full_name_tmp)) = None"
  by code_simp

lemma col_map_not_tmp: "contact_col_map cols k = Some c \<Longrightarrow> c \<noteq> full_name_tmp"
  using contact_col_map_Some [of cols k c] full_name_tmp_no_field by auto

lemma optional_cell_tmp:
  assumes "col_map = contact_col_map cols"
  shows "optional_cell (col_map(''full_name'' \<mapsto> full_name_tmp)) (row(full_name_tmp := v)) ''company''
           = optional_cell col_map row ''company''"
    and "optional_cell (col_map(''full_name'' \<mapsto> full_name_tmp)) (row(full_name_tmp := v)) ''title''
           = optional_cell col_map row ''title''"
    and "optional_cell (col_map(''full_name'' \<mapsto> full_name_tmp)) (row(full_name_tmp := v)) ''email''
           = optional_cell col_map row ''email''"
    and "optional_cell (col_map(''full_name'' \<mapsto> full_name_tmp)) (row(full_name_tmp := v)) ''linkedin_url''
           = optional_cell col_map row ''linkedin_url''"
  using assms col_map_not_tmp by (auto simp: optional_cell_def split: option.splits)

lemma made_contact_tmp:
  assumes "col_map = contact_col_map cols"
  shows "made_contact (col_map(''full_name'' \<mapsto> full_name_tmp)) own src n (row(full_name_tmp := v))
         = made_contact col_map own src n row"
  by (simp add: made_contact_def optional_cell_tmp [OF assms])

text \<open>
  A load whose columns resolve succeeds: it returns the table without the old partition,
  followed by the new rows. Otherwise it raises and returns the table it was given.
\<close>

lemma load_result:
  assumes "contact_col_map (df_columns df) ''full_name'' \<noteq> None
           \<or> (contact_col_map (df_columns df) ''first_name'' \<noteq> None
              \<and> contact_col_map (df_columns df) ''last_name'' \<noteq> None)"
  shows "\<exists>new. load_contacts_from_csv df own src db
                 = (Inr (length db - length (sql_delete own src db), length new),
                    sql_delete own src db @ new)
           \<and> map snd new = map (csv_contact df own src)
                             (filter (\<lambda>row. resolved_full_name df row \<noteq> []) (df_rows df))"
proof (cases "contact_col_map (df_columns df) ''full_name''")
  case (Some nc)
  from insert_rows_result [where col_map = "contact_col_map (df_columns df)" and nc = nc
      and own = own and src = src and rows = "df_rows df" and db = "sql_delete own src db"
      and k = 0, OF Some]
  obtain new where new:
    "insert_rows (contact_col_map (df_columns df)) own src (df_rows df) (sql_delete own src db) 0
       = Inr (sql_delete own src db @ new, 0 + length new)"
    "map snd new = map (\<lambda>row. made_contact (contact_col_map (df_columns df)) own src
                                (py_strip (py_str (row nc))) row)
                       (filter (\<lambda>row. py_strip (py_str (row nc)) \<noteq> []) (df_rows df))"
    by blast
  have r: "\<And>row. resolved_full_name df row = py_strip (py_str (row nc))"
    using Some by (simp add: resolved_full_name_def)
  have "load_contacts_from_csv df own src db
          = (Inr (length db - length (sql_delete own src db), length new),
             sql_delete own src db @ new)"
    using Some new(1) by (simp add: load_contacts_from_csv_def build_full_name_def Let_def)
  moreover have "map snd new = map (csv_contact df own src)
                             (filter (\<lambda>row. resolved_full_name df row \<noteq> []) (df_rows df))"
    using new(2) by (simp add: csv_contact_def r)
  ultimately show ?thesis by blast
next
  case None
  with assms obtain fn_col ln_col where
    fl: "contact_col_map (df_columns df) ''first_name'' = Some fn_col"
        "contact_col_map (df_columns df) ''last_name'' = Some ln_col"
    by auto
  let ?cm = "contact_col_map (df_columns df)"
  let ?cm' = "?cm(''full_name'' \<mapsto> full_name_tmp)"
  let ?v = "\<lambda>row. Text (fillna_str_strip (row fn_col) @ '' '' @ fillna_str_strip (row ln_col))"
  let ?rows' = "map (\<lambda>row. row(full_name_tmp := ?v row)) (df_rows df)"
  have cm': "?cm' ''full_name'' = Some full_name_tmp" by simp
  from insert_rows_result [where col_map = ?cm' and nc = full_name_tmp
      and own = own and src = src and rows = ?rows' and db = "sql_delete own src db"
      and k = 0, OF cm']
  obtain new where new:
    "insert_rows ?cm' own src ?rows' (sql_delete own src db) 0
       = Inr (sql_delete own src db @ new, 0 + length new)"
    "map snd new = map (\<lambda>row. made_contact ?cm' own src (py_strip (py_str (row full_name_tmp))) row)
                       (filter (\<lambda>row. py_strip (py_str (row full_name_tmp)) \<noteq> []) ?rows')"
    by blast
  have r: "\<And>row. resolved_full_name df row = py_strip (py_str (?v row))"
    using None fl by (simp add: resolved_full_name_def)
  have "load_contacts_from_csv df own src db
          = (Inr (length db - length (sql_delete own src db), length new),
             sql_delete own src db @ new)"
    using None fl new(1)
    by (simp add: load_contacts_from_csv_def build_full_name_def Let_def add_full_name_tmp_def)
  moreover have "map snd new = map (csv_contact df own src)
                             (filter (\<lambda>row. resolved_full_name df row \<noteq> []) (df_rows df))"
    unfolding new(2)
    by (simp add: filter_map o_def csv_contact_def r made_contact_tmp [OF refl])
  ultimately show ?thesis by blast
qed

lemma load_schema_error:
  assumes "contact_col_map (df_columns df) ''full_name'' = None"
    and "contact_col_map (df_columns df) ''first_name'' = None
         \<or> contact_col_map (df_columns df) ''last_name'' = None"
  shows "load_contacts_from_csv df own src db = (Inl (ValueError NoContactNameColumn), db)"
  using assms by (auto simp: load_contacts_from_csv_def Let_def)

lemma partition_of_new:
  assumes "map snd new = map (csv_contact df own src) rows"
  shows "\<forall>r\<in>set new. in_partition own src r"
proof
  fix r assume "r \<in> set new"
  then have "snd r \<in> set (map snd new)" by simp
  with assms obtain row where "snd r = csv_contact df own src row" by auto
  then show "in_partition own src r"
    by (simp add: in_partition_def csv_contact_def made_contact_def)
qed

lemma load_success_shape:
  assumes "load_contacts_from_csv df own src db = (Inr (deleted, inserted), db')"
  shows "\<exists>new. db' = sql_delete own src db @ new
           \<and> deleted = length db - length (sql_delete own src db) \<and> inserted = length new
           \<and> map snd new = map (csv_contact df own src)
                             (filter (\<lambda>row. resolved_full_name df row \<noteq> []) (df_rows df))
           \<and> filter (in_partition own src) db' = new
           \<and> filter (\<lambda>r. \<not> in_partition own src r) db' = filter (\<lambda>r. \<not> in_partition own src r) db"
proof -
  have res: "contact_col_map (df_columns df) ''full_name'' \<noteq> None
           \<or> (contact_col_map (df_columns df) ''first_name'' \<noteq> None
              \<and> contact_col_map (df_columns df) ''last_name'' \<noteq> None)"
  proof (rule ccontr)
    assume "\<not> ?thesis"
    then have "load_contacts_from_csv df own src db = (Inl (ValueError NoContactNameColumn), db)"
      by (intro load_schema_error) auto
    with assms show False by simp
  qed
  from load_result [OF res, of own src db] assms obtain new where new:
    "db' = sql_delete own src db @ new"
    "deleted = length db - length (sql_delete own src db)" "inserted = length new"
    "map snd new = map (csv_contact df own src)
                             (filter (\<lambda>row. resolved_full_name df row \<noteq> []) (df_rows df))"
    by auto
  from partition_of_new [OF new(4)] have p: "\<forall>r\<in>set new. in_partition own src r" .
  then have "filter (in_partition own src) new = new" "filter (\<lambda>r. \<not> in_partition own src r) new = []"
    by (simp_all add: filter_id_conv)
  then have "filter (in_partition own src) db' = new"
    "filter (\<lambda>r. \<not> in_partition own src r) db' = filter (\<lambda>r. \<not> in_partition own src r) db"
    by (simp_all add: new(1) sql_delete_def)
  with new show ?thesis by blast
qed

lemma resolved_full_name_stripped:
  "resolved_full_name df row \<noteq> [] \<Longrightarrow> \<exists>s. resolved_full_name df row = py_strip s"
  by (auto simp: resolved_full_name_def Let_def split: option.splits)


text \<open>
  A missing cell under a name column is the text \<open>nan\<close> after \<open>str\<close>; missing first
  and last names are filled with the empty text before they are joined.
\<close>

lemma missing_name_cell_is_nan:
  assumes "contact_col_map (df_columns df) ''full_name'' = Some name_col" and "row name_col = NaN"
  shows "resolved_full_name df row = ''nan''"
proof -
  have "py_strip ''nan'' = ''nan''" by code_simp
  with assms show ?thesis by (simp add: resolved_full_name_def)
qed

lemma missing_first_last_is_dropped:
  assumes "contact_col_map (df_columns df) ''full_name'' = None"
    and "contact_col_map (df_columns df) ''first_name'' = Some fn_col" and "row fn_col = NaN"
    and "contact_col_map (df_columns df) ''last_name'' = Some ln_col" and "row ln_col = NaN"
  shows "resolved_full_name df row = []"
proof -
  have "py_strip (py_strip [] @ '' '' @ py_strip []) = []" by code_simp
  with assms show ?thesis by (simp add: resolved_full_name_def)
qed

section \<open>The matcher\<close>

text \<open>
  \<open>extractOne\<close> returns a choice of the list with the greatest score, and
  \<open>key_to_index\<close> the last position of a key.
\<close>

lemma extract_from_None: "extract_from sc q i cs best = None \<longleftrightarrow> best = None \<and> cs = []"
  by (induction cs arbitrary: i best) (auto split: option.splits)

lemma extract_from_Some:
  "extract_from sc q i cs best = Some (k, s, j)
   \<Longrightarrow> best = Some (k, s, j) \<or> (i \<le> j \<and> j < i + length cs \<and> cs ! (j - i) = k \<and> s = sc q k)"
proof (induction cs arbitrary: i best)
  case Nil
  then show ?case by simp
next
  case (Cons c cs)
  let ?b = "case best of None \<Rightarrow> Some (c, sc q c, i)
            | Some (bc, bs, bi) \<Rightarrow> if bs < sc q c then Some (c, sc q c, i) else best"
  from Cons.prems have "extract_from sc q (Suc i) cs ?b = Some (k, s, j)" by simp
  from Cons.IH [OF this]
  have "?b = Some (k, s, j) \<or> (Suc i \<le> j \<and> j < Suc i + length cs \<and> cs ! (j - Suc i) = k \<and> s = sc q k)" .
  then show ?case
  proof
    assume "?b = Some (k, s, j)"
    then show ?thesis by (auto split: option.splits if_splits)
  next
    assume a: "Suc i \<le> j \<and> j < Suc i + length cs \<and> cs ! (j - Suc i) = k \<and> s = sc q k"
    then have "j - i = Suc (j - Suc i)" by arith
    with a show ?thesis by simp
  qed
qed

lemma extract_from_max:
  "extract_from sc q i cs best = Some (k, s, j)
   \<Longrightarrow> (\<forall>c\<in>set cs. sc q c \<le> s) \<and> (\<forall>bk bs bi. best = Some (bk, bs, bi) \<longrightarrow> bs \<le> s)"
proof (induction cs arbitrary: i best)
  case Nil
  then show ?case by simp
next
  case (Cons c cs)
  let ?b = "case best of None \<Rightarrow> Some (c, sc q c, i)
            | Some (bc, bs, bi) \<Rightarrow> if bs < sc q c then Some (c, sc q c, i) else best"
  from Cons.prems have "extract_from sc q (Suc i) cs ?b = Some (k, s, j)" by simp
  from Cons.IH [OF this]
  have ih: "(\<forall>c\<in>set cs. sc q c \<le> s) \<and> (\<forall>bk bs bi. ?b = Some (bk, bs, bi) \<longrightarrow> bs \<le> s)" .
  then show ?case by (cases best) (auto split: if_splits)
qed

lemma extractOne_Some:
  assumes "extractOne sc q cs = Some (k, s, j)"
  shows "j < length cs \<and> cs ! j = k \<and> s = sc q k \<and> s = Max (sc q ` set cs)"
proof -
  from assms extract_from_Some [of sc q 0 cs None k s j]
  have 1: "j < length cs" "cs ! j = k" "s = sc q k" by (simp_all add: extractOne_def)
  from assms extract_from_max [of sc q 0 cs None k s j]
  have 2: "\<forall>c\<in>set cs. sc q c \<le> s" by (simp add: extractOne_def)
  from 1 have "k \<in> set cs" by auto
  with 1 2 have "Max (sc q ` set cs) = s" by (intro Max_eqI) auto
  with 1 show ?thesis by simp
qed

lemma extractOne_nonempty: "cs \<noteq> [] \<Longrightarrow> \<exists>k s j. extractOne sc q cs = Some (k, s, j)"
  using extract_from_None [of sc q 0 cs None] by (cases "extractOne sc q cs") (auto simp: extractOne_def)

lemma index_from_Some:
  "index_from i ks m k = Some v
   \<Longrightarrow> (k \<notin> set ks \<and> m k = Some v)
     \<or> (\<exists>j<length ks. v = i + j \<and> ks ! j = k \<and> (\<forall>j'. j < j' \<and> j' < length ks \<longrightarrow> ks ! j' \<noteq> k))"
proof (induction ks arbitrary: i m)
  case Nil
  then show ?case by simp
next
  case (Cons a ks)
  from Cons.prems have "index_from (Suc i) ks (m(a \<mapsto> i)) k = Some v" by simp
  from Cons.IH [OF this]
  have "(k \<notin> set ks \<and> (m(a \<mapsto> i)) k = Some v)
     \<or> (\<exists>j<length ks. v = Suc i + j \<and> ks ! j = k \<and> (\<forall>j'. j < j' \<and> j' < length ks \<longrightarrow> ks ! j' \<noteq> k))" .
  then show ?case
  proof
    assume a: "k \<notin> set ks \<and> (m(a \<mapsto> i)) k = Some v"
    show ?thesis
    proof (cases "k = a")
      case True
      with a have "v = i + 0" "(a # ks) ! 0 = k" by simp_all
      moreover from a have "\<forall>j'. 0 < j' \<and> j' < length (a # ks) \<longrightarrow> (a # ks) ! j' \<noteq> k"
        by (auto simp: nth_Cons' )
      ultimately show ?thesis by (intro disjI2 exI [of _ 0]) simp
    next
      case False
      with a show ?thesis by simp
    qed
  next
    assume "\<exists>j<length ks. v = Suc i + j \<and> ks ! j = k \<and> (\<forall>j'. j < j' \<and> j' < length ks \<longrightarrow> ks ! j' \<noteq> k)"
    then obtain j where j: "j < length ks" "v = Suc i + j" "ks ! j = k"
      "\<forall>j'. j < j' \<and> j' < length ks \<longrightarrow> ks ! j' \<noteq> k" by blast
    have "\<forall>j'. Suc j < j' \<and> j' < length (a # ks) \<longrightarrow> (a # ks) ! j' \<noteq> k"
    proof (intro allI impI)
      fix j' assume "Suc j < j' \<and> j' < length (a # ks)"
      then obtain j'' where "j' = Suc j''" "j < j''" "j'' < length ks" by (cases j') auto
      with j(4) show "(a # ks) ! j' \<noteq> k" by simp
    qed
    with j show ?thesis by (intro disjI2 exI [of _ "Suc j"]) simp
  qed
qed

lemma index_from_notin: "k \<notin> set ks \<Longrightarrow> index_from i ks m k = m k"
proof (induction ks arbitrary: i m)
  case Nil
  then show ?case by simp
next
  case (Cons a ks)
  then have k: "k \<notin> set ks" "k \<noteq> a" by auto
  have "index_from (Suc i) ks (m(a \<mapsto> i)) k = (m(a \<mapsto> i)) k"
    by (rule Cons.IH [OF k(1)])
  also have "\<dots> = m k" using k(2) by simp
  finally show ?case by simp
qed

lemma index_from_in: "k \<in> set ks \<Longrightarrow> \<exists>v. index_from i ks m k = Some v"
proof (induction ks arbitrary: i m)
  case Nil
  then show ?case by simp
next
  case (Cons a ks)
  show ?case
  proof (cases "k \<in> set ks")
    case True
    from Cons.IH [OF this] show ?thesis by simp
  next
    case False
    with Cons.prems have "k = a" by simp
    with False show ?thesis by (simp add: index_from_notin)
  qed
qed

lemma key_to_index_last:
  assumes "k \<in> set ks"
  shows "\<exists>j<length ks. key_to_index ks k = Some j \<and> ks ! j = k
           \<and> (\<forall>j'. j < j' \<and> j' < length ks \<longrightarrow> ks ! j' \<noteq> k)"
proof -
  from index_from_in [OF assms, of 0 Map.empty] obtain v where
    v: "index_from 0 ks Map.empty k = Some v" by blast
  from index_from_Some [OF v] assms v show ?thesis by (auto simp: key_to_index_def)
qed

text \<open>
  The body of the loop never raises: the key it looks up is a key of the list, and the
  index it reads is in range. It appends one row when the attendee clears the threshold and
  none otherwise; the row joins the last contact that has the winning key, and its score is
  the scorer's value on the attendee key and that key.
\<close>

lemma match_attendee_skip:
  assumes "keys = map build_contact_key cs"
    and "\<not> (q \<noteq> [] \<and> cs \<noteq> [] \<and> of_int t \<le> Max (sc q ` set keys))"
  shows "match_attendee sc t cs keys (key_to_index keys) (a, q) = Inr []"
proof (cases "q = []")
  case True
  then show ?thesis by (simp add: match_attendee_def)
next
  case q: False
  show ?thesis
  proof (cases "extractOne sc q keys")
    case None
    with q show ?thesis by (simp add: match_attendee_def)
  next
    case (Some r)
    obtain k s j where r: "r = (k, s, j)" by (cases r)
    from extractOne_Some [OF Some [unfolded r]]
    have "j < length keys" "s = Max (sc q ` set keys)" by simp_all
    with assms q have "s < of_int t" by auto
    with q Some r show ?thesis by (simp add: match_attendee_def)
  qed
qed

lemma match_attendee_emit:
  assumes "keys = map build_contact_key cs"
    and "q \<noteq> []" "cs \<noteq> []" "of_int t \<le> Max (sc q ` set keys)"
  shows "\<exists>i<length cs.
           match_attendee sc t cs keys (key_to_index keys) (a, q)
             = Inr [export_row a (cs ! i) (Max (sc q ` set keys))]
           \<and> sc q (build_contact_key (cs ! i)) = Max (sc q ` set keys)
           \<and> (\<forall>j. i < j \<and> j < length cs
                 \<longrightarrow> build_contact_key (cs ! j) \<noteq> build_contact_key (cs ! i))"
proof -
  from assms have "keys \<noteq> []" by simp
  from extractOne_nonempty [OF this] obtain k s j where
    ex: "extractOne sc q keys = Some (k, s, j)" by blast
  from extractOne_Some [OF ex]
  have e: "j < length keys" "keys ! j = k" "s = sc q k" "s = Max (sc q ` set keys)" by simp_all
  then have "k \<in> set keys" by auto
  from key_to_index_last [OF this] obtain i where
    i: "i < length keys" "key_to_index keys k = Some i" "keys ! i = k"
       "\<forall>j'. i < j' \<and> j' < length keys \<longrightarrow> keys ! j' \<noteq> k" by blast
  from i(1) assms(1) have len: "i < length cs" by simp
  from assms(4) e(4) have "\<not> s < of_int t" by simp
  with assms(2) ex i(2) len e(4)
  have "match_attendee sc t cs keys (key_to_index keys) (a, q)
          = Inr [export_row a (cs ! i) (Max (sc q ` set keys))]"
    by (simp add: match_attendee_def)
  moreover from i(3) len assms(1) have ki: "build_contact_key (cs ! i) = k" by simp
  moreover from ki e have "sc q (build_contact_key (cs ! i)) = Max (sc q ` set keys)" by simp
  moreover from i(4) assms(1) ki
  have "\<forall>j. i < j \<and> j < length cs \<longrightarrow> build_contact_key (cs ! j) \<noteq> build_contact_key (cs ! i)"
    by simp
  ultimately show ?thesis using len by blast
qed

lemma match_attendee_total:
  assumes "keys = map build_contact_key cs"
  shows "\<exists>new. match_attendee sc t cs keys (key_to_index keys) p = Inr new"
proof -
  obtain a q where p: "p = (a, q)" by (cases p)
  show ?thesis
  proof (cases "q \<noteq> [] \<and> cs \<noteq> [] \<and> of_int t \<le> Max (sc q ` set keys)")
    case True
    with match_attendee_emit [where sc = sc and q = q and t = t and cs = cs
        and keys = keys and a = a, OF assms] p
    show ?thesis by blast
  next
    case False
    from match_attendee_skip [where sc = sc and q = q and t = t and cs = cs
        and keys = keys and a = a, OF assms False] p
    show ?thesis by blast
  qed
qed

lemma match_loop_concat:
  assumes "\<forall>p\<in>set ps. \<exists>new. match_attendee sc t cs keys kti p = Inr new"
  shows "match_loop sc t cs keys kti ps acc
           = Inr (acc @ concat (map (\<lambda>p. projr (match_attendee sc t cs keys kti p)) ps))"
  using assms
proof (induction ps arbitrary: acc)
  case Nil
  then show ?case by simp
next
  case (Cons p ps)
  from Cons.prems obtain new where new: "match_attendee sc t cs keys kti p = Inr new" by auto
  from Cons.prems have "\<forall>p\<in>set ps. \<exists>new. match_attendee sc t cs keys kti p = Inr new" by simp
  from Cons.IH [OF this, of "acc @ new"] new show ?case by simp
qed

lemma match_result_concat:
  assumes "db \<noteq> []" "build_attendees raw_df = Inr atts"
  shows "match_attendees_from_csv sc db raw_df t
           = Inr (concat (map (matched_rows sc t (map snd db)) atts))"
proof -
  let ?cs = "map snd db"
  let ?keys = "map build_contact_key ?cs"
  have "\<forall>p\<in>set (map (\<lambda>a. (a, build_attendee_key a)) atts).
          \<exists>new. match_attendee sc t ?cs ?keys (key_to_index ?keys) p = Inr new"
    using match_attendee_total [OF refl] by blast
  from match_loop_concat [OF this, of "[]"]
  have "match_loop sc t ?cs ?keys (key_to_index ?keys) (map (\<lambda>a. (a, build_attendee_key a)) atts) []
          = Inr (concat (map (\<lambda>a. matched_rows sc t ?cs a) atts))"
    by (simp add: o_def matched_rows_def)
  with assms show ?thesis
    by (simp add: match_attendees_from_csv_def Let_def)
qed

lemma matched_rows_cases:
  "matched_rows sc t cs a =
     (if clears_threshold sc (map build_contact_key cs) t a
      then matched_rows sc t cs a else [])"
  "clears_threshold sc (map build_contact_key cs) t a \<Longrightarrow>
     \<exists>i<length cs. matched_rows sc t cs a
          = [export_row a (cs ! i) (Max (sc (build_attendee_key a) ` set (map build_contact_key cs)))]
        \<and> sc (build_attendee_key a) (build_contact_key (cs ! i))
            = Max (sc (build_attendee_key a) ` set (map build_contact_key cs))
        \<and> (\<forall>j. i < j \<and> j < length cs
                 \<longrightarrow> build_contact_key (cs ! j) \<noteq> build_contact_key (cs ! i))"
proof -
  show "matched_rows sc t cs a =
     (if clears_threshold sc (map build_contact_key cs) t a
      then matched_rows sc t cs a else [])"
    using match_attendee_skip [where sc = sc and q = "build_attendee_key a" and t = t
        and cs = cs and keys = "map build_contact_key cs" and a = a, OF refl]
    by (auto simp: clears_threshold_def matched_rows_def)
next
  assume "clears_threshold sc (map build_contact_key cs) t a"
  then have c: "build_attendee_key a \<noteq> []" "cs \<noteq> []"
    "of_int t \<le> Max (sc (build_attendee_key a) ` set (map build_contact_key cs))"
    by (auto simp: clears_threshold_def)
  from match_attendee_emit [where sc = sc and q = "build_attendee_key a" and t = t
        and cs = cs and keys = "map build_contact_key cs" and a = a, OF refl c]
  show "\<exists>i<length cs. matched_rows sc t cs a
          = [export_row a (cs ! i) (Max (sc (build_attendee_key a) ` set (map build_contact_key cs)))]
        \<and> sc (build_attendee_key a) (build_contact_key (cs ! i))
            = Max (sc (build_attendee_key a) ` set (map build_contact_key cs))
        \<and> (\<forall>j. i < j \<and> j < length cs
                 \<longrightarrow> build_contact_key (cs ! j) \<noteq> build_contact_key (cs ! i))"
    by (auto simp: matched_rows_def)
qed

lemma result_attendee_export: "result_attendee (export_row a c s) = a"
  by (cases a) (simp add: result_attendee_def export_row_def)

lemma matched_rows_attendees:
  "map result_attendee (matched_rows sc t cs a)
     = (if clears_threshold sc (map build_contact_key cs) t a then [a] else [])"
proof (cases "clears_threshold sc (map build_contact_key cs) t a")
  case True
  from matched_rows_cases(2) [OF True] show ?thesis
    using True by (auto simp: result_attendee_export)
next
  case False
  with matched_rows_cases(1) [of sc t cs a] show ?thesis by simp
qed

lemma concat_matched_attendees:
  "map result_attendee (concat (map (matched_rows sc t cs) atts))
     = filter (clears_threshold sc (map build_contact_key cs) t) atts"
  by (induction atts) (simp_all add: matched_rows_attendees)


lemma match_rows_shape:
  assumes "match_attendees_from_csv sc db raw_df t = Inr rows"
  shows "db \<noteq> [] \<and> (\<exists>atts. build_attendees raw_df = Inr atts
           \<and> rows = concat (map (matched_rows sc t (map snd db)) atts))"
proof -
  from assms have db: "db \<noteq> []" by (auto simp: match_attendees_from_csv_def Let_def)
  with assms obtain atts where atts: "build_attendees raw_df = Inr atts"
    by (cases "build_attendees raw_df") (auto simp: match_attendees_from_csv_def Let_def)
  from match_result_concat [OF db atts, of sc t] assms atts db show ?thesis by simp
qed


section \<open>The claims\<close>

text \<open>
  C1. When the headers of the contacts file hold no alias of the full name, and no alias
  of the first name or no alias of the last name, \<open>load_contacts_from_csv\<close> raises the
  ValueError about the name columns and the table (so also the rows of the given owner
  and source) is the one before the call: the check precedes the DELETE.
\<close>

theorem load_schema_error_keeps_table:
  assumes "\<forall>col\<in>set (df_columns df). py_lower (py_strip col) \<notin> set [''full_name'', ''name'']"
    and "(\<forall>col\<in>set (df_columns df).
            py_lower (py_strip col) \<notin> set [''first name'', ''firstname'', ''given name''])
         \<or> (\<forall>col\<in>set (df_columns df).
            py_lower (py_strip col) \<notin> set [''last name'', ''lastname'', ''surname'', ''family name''])"
  shows "load_contacts_from_csv df own src db = (Inl (ValueError NoContactNameColumn), db)"
proof (rule load_schema_error)
  show "contact_col_map (df_columns df) ''full_name'' = None"
    unfolding contact_col_map_None contact_field_full_name using assms(1) by blast
  show "contact_col_map (df_columns df) ''first_name'' = None
         \<or> contact_col_map (df_columns df) ''last_name'' = None"
    unfolding contact_col_map_None contact_field_first_name contact_field_last_name
    using assms(2) by blast
qed

theorem load_schema_error_keeps_table_witness:
  "list_all (\<lambda>col. py_lower (py_strip col) \<notin> set [''full_name'', ''name''])
     (df_columns ex_bad_csv)
   \<and> list_all (\<lambda>col. py_lower (py_strip col)
                      \<notin> set [''last name'', ''lastname'', ''surname'', ''family name''])
       (df_columns ex_bad_csv)
   \<and> load_contacts_from_csv ex_bad_csv ''Ava'' ''LinkedIn'' ex_table
       = (Inl (ValueError NoContactNameColumn), ex_table)"
proof -
  have h1: "\<forall>col\<in>set (df_columns ex_bad_csv). py_lower (py_strip col) \<notin> set [''full_name'', ''name'']"
    by code_simp
  have h2: "\<forall>col\<in>set (df_columns ex_bad_csv).
            py_lower (py_strip col) \<notin> set [''last name'', ''lastname'', ''surname'', ''family name'']"
    by code_simp
  from load_schema_error_keeps_table [OF h1 disjI2 [OF h2]] h1 h2 show ?thesis
    unfolding list_all_iff by blast
qed





text \<open>
  C4. On a table with rows, for an attendee of the file with a non-empty key: the call
  succeeds; if the attendee's best score over the contact keys equals the threshold, the
  result has a row for that attendee, with that score; if the best score is below the
  threshold, the result has no row for that attendee.
\<close>

theorem threshold_is_inclusive:
  assumes "db \<noteq> []" and "build_attendees raw_df = Inr atts"
    and "a \<in> set atts" and "build_attendee_key a \<noteq> []"
  shows "\<exists>rows. match_attendees_from_csv sc db raw_df t = Inr rows
     \<and> (Max (sc (build_attendee_key a) ` set (map build_contact_key (map snd db))) = of_int t
          \<longrightarrow> (\<exists>r\<in>set rows. result_attendee r = a \<and> match_score r = of_int t))
     \<and> (Max (sc (build_attendee_key a) ` set (map build_contact_key (map snd db))) < of_int t
          \<longrightarrow> (\<forall>r\<in>set rows. result_attendee r \<noteq> a))"
proof -
  let ?cs = "map snd db"
  let ?keys = "map build_contact_key ?cs"
  let ?rows = "concat (map (matched_rows sc t ?cs) atts)"
  let ?best = "Max (sc (build_attendee_key a) ` set ?keys)"
  have res: "match_attendees_from_csv sc db raw_df t = Inr ?rows"
    by (rule match_result_concat [OF assms(1,2)])
  have att: "map result_attendee ?rows = filter (clears_threshold sc ?keys t) atts"
    by (rule concat_matched_attendees)
  have incl: "\<exists>r\<in>set ?rows. result_attendee r = a \<and> match_score r = of_int t" if "?best = of_int t"
  proof -
    from that assms(1,4) have "clears_threshold sc ?keys t a"
      by (simp add: clears_threshold_def)
    from matched_rows_cases(2) [OF this] obtain i where
      "matched_rows sc t ?cs a = [export_row a (?cs ! i) ?best]" by blast
    with assms(3) have "export_row a (?cs ! i) ?best \<in> set ?rows" by force
    moreover have "result_attendee (export_row a (?cs ! i) ?best) = a"
      by (rule result_attendee_export)
    moreover have "match_score (export_row a (?cs ! i) ?best) = of_int t"
      using that by (simp add: export_row_def)
    ultimately show ?thesis by blast
  qed
  have excl: "\<forall>r\<in>set ?rows. result_attendee r \<noteq> a" if "?best < of_int t"
  proof
    fix r assume "r \<in> set ?rows"
    then have "result_attendee r \<in> set (map result_attendee ?rows)" by simp
    with att have c: "clears_threshold sc ?keys t (result_attendee r)" by simp
    show "result_attendee r \<noteq> a"
    proof
      assume "result_attendee r = a"
      with c have "of_int t \<le> ?best" unfolding clears_threshold_def by blast
      with that show False using leD by blast
    qed
  qed
  from res incl excl show ?thesis by blast
qed

theorem threshold_is_inclusive_witness:
  "ex_table \<noteq> [] \<and> build_attendees ex_attendees_csv = Inr ex_attendees
   \<and> att_jane \<in> set ex_attendees \<and> build_attendee_key att_jane \<noteq> []
   \<and> Max (ex_scorer (build_attendee_key att_jane) ` set (map build_contact_key (map snd ex_table)))
       = of_int 100
   \<and> att_janet \<in> set ex_attendees \<and> build_attendee_key att_janet \<noteq> []
   \<and> Max (ex_scorer (build_attendee_key att_janet) ` set (map build_contact_key (map snd ex_table)))
       < of_int 100
   \<and> (\<exists>rows. match_attendees_from_csv ex_scorer ex_table ex_attendees_csv 100 = Inr rows
         \<and> (\<exists>r\<in>set rows. result_attendee r = att_jane \<and> match_score r = of_int 100))
   \<and> (\<exists>rows. match_attendees_from_csv ex_scorer ex_table ex_attendees_csv 100 = Inr rows
         \<and> (\<forall>r\<in>set rows. result_attendee r \<noteq> att_janet))"
proof -
  have h1: "ex_table \<noteq> []" by code_simp
  have h2: "build_attendees ex_attendees_csv = Inr ex_attendees" by code_simp
  have a1: "att_jane \<in> set ex_attendees" by code_simp
  have a2: "build_attendee_key att_jane \<noteq> []" by code_simp
  have a3: "Max (ex_scorer (build_attendee_key att_jane)
                  ` set (map build_contact_key (map snd ex_table))) = of_int 100"
    by code_simp
  have b1: "att_janet \<in> set ex_attendees" by code_simp
  have b2: "build_attendee_key att_janet \<noteq> []" by code_simp
  have b3: "Max (ex_scorer (build_attendee_key att_janet)
                  ` set (map build_contact_key (map snd ex_table))) < of_int 100"
    by code_simp
  from threshold_is_inclusive [OF h1 h2 a1 a2, of ex_scorer 100] a3
  have c1: "\<exists>rows. match_attendees_from_csv ex_scorer ex_table ex_attendees_csv 100 = Inr rows
         \<and> (\<exists>r\<in>set rows. result_attendee r = att_jane \<and> match_score r = of_int 100)"
    by blast
  from threshold_is_inclusive [OF h1 h2 b1 b2, of ex_scorer 100] b3
  have c2: "\<exists>rows. match_attendees_from_csv ex_scorer ex_table ex_attendees_csv 100 = Inr rows
         \<and> (\<forall>r\<in>set rows. result_attendee r \<noteq> att_janet)"
    by blast
  from h1 h2 a1 a2 a3 b1 b2 b3 c1 c2 show ?thesis by blast
qed

text \<open>
  C5. The attendees of the result rows are, in the order of the file, the attendees that
  clear the threshold: the result is the attendee list with the others (empty key, or best
  score below the threshold) left out, never reordered.
\<close>

theorem match_preserves_order:
  assumes "match_attendees_from_csv sc db raw_df t = Inr rows"
  shows "\<exists>atts. build_attendees raw_df = Inr atts \<and> length atts = length (df_rows raw_df)
           \<and> map result_attendee rows
               = filter (clears_threshold sc (map build_contact_key (map snd db)) t) atts"
proof -
  from match_rows_shape [OF assms] obtain atts where
    atts: "build_attendees raw_df = Inr atts"
          "rows = concat (map (matched_rows sc t (map snd db)) atts)" by blast
  from atts(1) have "length atts = length (df_rows raw_df)"
    by (auto simp: build_attendees_def Let_def split: option.splits)
  with atts concat_matched_attendees [of sc t "map snd db" atts] show ?thesis by simp
qed

theorem match_preserves_order_witness:
  "match_attendees_from_csv ex_scorer ex_table ex_attendees_csv 85 = Inr ex_rows
   \<and> (\<exists>atts. build_attendees ex_attendees_csv = Inr atts
         \<and> length atts = length (df_rows ex_attendees_csv)
         \<and> map result_attendee ex_rows
             = filter (clears_threshold ex_scorer (map build_contact_key (map snd ex_table)) 85) atts)"
proof -
  have h: "match_attendees_from_csv ex_scorer ex_table ex_attendees_csv 85 = Inr ex_rows"
    by code_simp
  from match_preserves_order [OF h] h show ?thesis by blast
qed






text \<open>
  C9, as stated, fails: the name and the company of the example contact both normalize
  to non-empty strings, and its key is not the one joined by " | " to the other, because
  the final \<open>strip(" |")\<close> also removes the bar that ends the company.
\<close>

theorem build_key_strips_bar_counterexample:
  "normalize_string (Some (full_name bar_contact)) \<noteq> []
   \<and> normalize_string (Some (company bar_contact)) \<noteq> []
   \<and> build_contact_key bar_contact
       \<noteq> normalize_string (Some (full_name bar_contact)) @ '' | ''
           @ normalize_string (Some (company bar_contact))"
  by code_simp

text \<open>
  C9, amended. With \<open>n\<close> and \<open>co\<close> the normalized name and company: if both are not
  empty, \<open>n\<close> does not start with a bar and \<open>co\<close> does not end with one, the key is
  \<open>n\<close>, " | " and \<open>co\<close>; if \<open>co\<close> is empty and \<open>n\<close> is empty or neither starts nor
  ends with a bar, the key is \<open>n\<close>; if \<open>n\<close> is empty and \<open>co\<close> is empty or neither
  starts nor ends with a bar, the key is \<open>co\<close>; and the key builder for attendees gives
  the same key as the one for contacts on the same name and company.
\<close>

theorem build_key_shape:
  fixes name comp :: string and c :: contact and a :: attendee
  shows
  "(let n = normalize_string (Some name); co = normalize_string (Some comp);
        k = build_contact_key (c\<lparr>full_name := name, company := comp\<rparr>)
    in (n \<noteq> [] \<and> co \<noteq> [] \<and> hd n \<noteq> CHR ''|'' \<and> last co \<noteq> CHR ''|'' \<longrightarrow> k = n @ '' | '' @ co)
     \<and> (co = [] \<and> (n = [] \<or> hd n \<noteq> CHR ''|'' \<and> last n \<noteq> CHR ''|'') \<longrightarrow> k = n)
     \<and> (n = [] \<and> (co = [] \<or> hd co \<noteq> CHR ''|'' \<and> last co \<noteq> CHR ''|'') \<longrightarrow> k = co)
     \<and> build_attendee_key (a\<lparr>attendee_name := name, attendee_company := comp\<rparr>) = k)"
  using key_of_both [of "Some name" _ "Some comp"]
    key_of_right_empty [of "Some name"] key_of_left_empty [of "Some comp"]
  by (simp add: Let_def build_contact_key_def build_attendee_key_def)

theorem build_key_shape_witness:
  "(normalize_string (Some ''  Jane   DOE '') \<noteq> [] \<and> normalize_string (Some ''Acme  Corp'') \<noteq> []
     \<and> hd (normalize_string (Some ''  Jane   DOE '')) \<noteq> CHR ''|''
     \<and> last (normalize_string (Some ''Acme  Corp'')) \<noteq> CHR ''|''
     \<and> build_contact_key (jane_ava\<lparr>full_name := ''  Jane   DOE '', company := ''Acme  Corp''\<rparr>)
         = normalize_string (Some ''  Jane   DOE '') @ '' | '' @ normalize_string (Some ''Acme  Corp''))
   \<and> (normalize_string (Some ''  '') = []
     \<and> hd (normalize_string (Some ''Cher'')) \<noteq> CHR ''|''
     \<and> last (normalize_string (Some ''Cher'')) \<noteq> CHR ''|''
     \<and> build_contact_key (jane_ava\<lparr>full_name := ''Cher'', company := ''  ''\<rparr>)
         = normalize_string (Some ''Cher''))
   \<and> (normalize_string (Some []) = []
     \<and> hd (normalize_string (Some ''Acme Corp'')) \<noteq> CHR ''|''
     \<and> last (normalize_string (Some ''Acme Corp'')) \<noteq> CHR ''|''
     \<and> build_contact_key (jane_ava\<lparr>full_name := [], company := ''Acme Corp''\<rparr>)
         = normalize_string (Some ''Acme Corp''))
   \<and> build_attendee_key (att_jane\<lparr>attendee_name := ''  Jane   DOE '', attendee_company := ''Acme  Corp''\<rparr>)
       = build_contact_key (jane_ava\<lparr>full_name := ''  Jane   DOE '', company := ''Acme  Corp''\<rparr>)"
proof -
  have a: "normalize_string (Some ''  Jane   DOE '') \<noteq> []" "normalize_string (Some ''Acme  Corp'') \<noteq> []"
    "hd (normalize_string (Some ''  Jane   DOE '')) \<noteq> CHR ''|''"
    "last (normalize_string (Some ''Acme  Corp'')) \<noteq> CHR ''|''"
    by code_simp+
  have b: "normalize_string (Some ''  '') = []"
    "hd (normalize_string (Some ''Cher'')) \<noteq> CHR ''|''"
    "last (normalize_string (Some ''Cher'')) \<noteq> CHR ''|''"
    by code_simp+
  have c: "normalize_string (Some []) = []"
    "hd (normalize_string (Some ''Acme Corp'')) \<noteq> CHR ''|''"
    "last (normalize_string (Some ''Acme Corp'')) \<noteq> CHR ''|''"
    by code_simp+
  from build_key_shape [of "''  Jane   DOE ''" "''Acme  Corp''" jane_ava att_jane] a
  have 1: "build_contact_key (jane_ava\<lparr>full_name := ''  Jane   DOE '', company := ''Acme  Corp''\<rparr>)
         = normalize_string (Some ''  Jane   DOE '') @ '' | '' @ normalize_string (Some ''Acme  Corp'')"
    "build_attendee_key (att_jane\<lparr>attendee_name := ''  Jane   DOE '', attendee_company := ''Acme  Corp''\<rparr>)
       = build_contact_key (jane_ava\<lparr>full_name := ''  Jane   DOE '', company := ''Acme  Corp''\<rparr>)"
    unfolding Let_def by blast+
  from build_key_shape [of "''Cher''" "''  ''" jane_ava att_jane] b
  have 2: "build_contact_key (jane_ava\<lparr>full_name := ''Cher'', company := ''  ''\<rparr>)
         = normalize_string (Some ''Cher'')"
    unfolding Let_def by blast
  from build_key_shape [of "[]" "''Acme Corp''" jane_ava att_jane] c
  have 3: "build_contact_key (jane_ava\<lparr>full_name := [], company := ''Acme Corp''\<rparr>)
         = normalize_string (Some ''Acme Corp'')"
    unfolding Let_def by blast
  from a b c 1 2 3 show ?thesis by blast
qed

text \<open>
  C10. For every row of the partition after a successful load, the trimmed full name has
  at least one token; if it has exactly one, the first name is that token and the last name
  is empty; otherwise the last name is the final token and the first name is the tokens
  before it joined by single blanks.
\<close>

theorem load_splits_names:
  assumes "load_contacts_from_csv df own src db = (Inr (deleted, inserted), db')"
    and "r \<in> set db'" and "in_partition own src r"
  shows "name_parts (full_name (snd r)) \<noteq> []
     \<and> (if length (name_parts (full_name (snd r))) = 1
        then first_name (snd r) = hd (name_parts (full_name (snd r))) \<and> last_name (snd r) = []
        else last_name (snd r) = last (name_parts (full_name (snd r)))
           \<and> first_name (snd r) = py_join '' '' (butlast (name_parts (full_name (snd r)))))"
proof -
  let ?rows = "filter (\<lambda>row. resolved_full_name df row \<noteq> []) (df_rows df)"
  from load_success_shape [OF assms(1)] obtain new where new:
    "map snd new = map (csv_contact df own src) ?rows"
    "filter (in_partition own src) db' = new"
    by blast
  from assms(2,3) new(2) have "r \<in> set new" by auto
  then have "snd r \<in> set (map snd new)" by simp
  with new(1) obtain row where row: "snd r = csv_contact df own src row"
    "resolved_full_name df row \<noteq> []" by auto
  from resolved_full_name_stripped [OF row(2)] obtain s where
    s: "resolved_full_name df row = py_strip s" by blast
  with row(2) name_parts_stripped [of s] have "name_parts (resolved_full_name df row) \<noteq> []"
    by simp
  then show ?thesis by (simp add: row(1) csv_contact_def made_contact_def)
qed

theorem load_splits_names_witness:
  "load_contacts_from_csv ex_contacts_csv ''Ava'' ''LinkedIn'' ex_table = (Inr (1, 3), ex_table_after)
   \<and> (3, mary_ann_lee) \<in> set ex_table_after \<and> in_partition ''Ava'' ''LinkedIn'' (3, mary_ann_lee)
   \<and> name_parts (full_name mary_ann_lee) = [''Mary'', ''Ann'', ''Lee'']
   \<and> last_name mary_ann_lee = last (name_parts (full_name mary_ann_lee))
   \<and> first_name mary_ann_lee = py_join '' '' (butlast (name_parts (full_name mary_ann_lee)))"
proof -
  have h: "load_contacts_from_csv ex_contacts_csv ''Ava'' ''LinkedIn'' ex_table
             = (Inr (1, 3), ex_table_after)"
    by code_simp
  have h2: "(3, mary_ann_lee) \<in> set ex_table_after" by code_simp
  have h3: "in_partition ''Ava'' ''LinkedIn'' (3, mary_ann_lee)" by code_simp
  have p: "name_parts (full_name mary_ann_lee) = [''Mary'', ''Ann'', ''Lee'']" by code_simp
  from load_splits_names [OF h h2 h3] p
  have "last_name mary_ann_lee = last (name_parts (full_name mary_ann_lee))
      \<and> first_name mary_ann_lee = py_join '' '' (butlast (name_parts (full_name mary_ann_lee)))"
    by simp
  with h h2 h3 p show ?thesis by blast
qed

end
